theory Spec2Isabelle
  imports Complex_Main
begin

chapter \<open>The ingestion engine as HOL functions\<close>

section \<open>Values, errors and configuration\<close>

text \<open>
  The ingestion engine is Python. Its raw items are decoded JSON documents, its exceptions
  are modelled as values, and every function that touches the database takes the state
  and returns it updated. Python's \<open>float\<close> and \<open>Decimal\<close> are idealised as
  rationals: rounding, overflow, \<open>inf\<close> and \<open>NaN\<close> are outside the model. Calls to the
  logger are left out everywhere.
\<close>

datatype json =
    JNull
  | JBool bool
  | JInt int
  | JFloat rat
  | JStr string
  | JArr "json list"
  | JObj "(string \<times> json) list"

type_synonym item = "(string \<times> json) list"

type_synonym timestamp = rat

text \<open>
  The exceptions the engine raises or lets through. \<open>ExtractionFailed n\<close> is
  \<^verbatim>\<open>Exception(f"Failed to extract data after {n} retries")\<close>; \<open>ClientError\<close> is
  \<open>aiohttp.ClientError\<close> with its subclasses; \<open>PostgresError\<close> is whatever the database
  driver raises for a statement. Where the code stores \<open>str(e)\<close>, the model stores \<open>e\<close>.
\<close>

datatype exn =
    ExtractionFailed int
  | ClientError string
  | JSONDecodeError
  | TypeError string
  | AttributeError string
  | ValueError string
  | ZeroDivisionError
  | PostgresError string
  | OtherException string

type_synonym 'a res = "exn + 'a"

text \<open>\<open>core/config.py\<close>: the settings the engine reads, with their declared types.\<close>

record settings =
  ETL_MAX_RETRIES :: int
  RATE_LIMIT_ENABLED :: bool
  COINPAPRIKA_RATE_LIMIT :: int
  COINGECKO_RATE_LIMIT :: int
  BACKOFF_BASE_DELAY :: rat
  BACKOFF_MAX_DELAY :: rat
  BACKOFF_FACTOR :: rat
  CHECKPOINT_ENABLED :: bool
  CHECKPOINT_INTERVAL :: int
  SCHEMA_DRIFT_ENABLED :: bool
  SCHEMA_DRIFT_THRESHOLD :: rat

definition default_settings :: settings where
  "default_settings =
     \<lparr> ETL_MAX_RETRIES = 3,
       RATE_LIMIT_ENABLED = True,
       COINPAPRIKA_RATE_LIMIT = 25,
       COINGECKO_RATE_LIMIT = 50,
       BACKOFF_BASE_DELAY = 1,
       BACKOFF_MAX_DELAY = 60,
       BACKOFF_FACTOR = 2,
       CHECKPOINT_ENABLED = True,
       CHECKPOINT_INTERVAL = 50,
       SCHEMA_DRIFT_ENABLED = True,
       SCHEMA_DRIFT_THRESHOLD = 8 / 10 \<rparr>"

section \<open>The tables of \<open>services/database.py\<close>\<close>

text \<open>
  A normalized record is the dictionary each \<open>transform\<close> builds: all ten keys are
  present and none is \<open>None\<close>. A row of a table is what the \<open>INSERT\<close> writes; the
  serial \<open>id\<close> is the row's position, and the columns the server fills with \<open>NOW()\<close>
  are left out.
\<close>

record norm_record =
  source :: string
  symbol :: string
  name :: string
  price_usd :: rat
  market_cap_usd :: rat
  volume_24h_usd :: rat
  percent_change_24h :: rat
  rank :: int
  last_updated :: timestamp
  raw_data :: json

record raw_row =
  data :: json
  source_id :: "string option"

record checkpoint =
  ck_source :: string
  checkpoint_data :: json
  ck_records_processed :: nat
  completed :: bool

record etl_run =
  run_source :: string
  run_status :: string
  run_records_processed :: nat
  start_time :: timestamp
  end_time :: "timestamp option"
  duration_seconds :: "rat option"
  error_message :: "exn option"
  metadata :: "json option"

datatype drift_warning =
    FieldRename string "string option" rat
  | TypeMismatch string "string list" string

record drift_log =
  dl_source :: string
  expected_schema :: "(string \<times> string list) list"
  actual_schema :: "(string \<times> string) list"
  confidence_score :: rat
  warnings :: "drift_warning list"

datatype raw_table = Raw_coinpaprika | Raw_coingecko | Raw_csv

text \<open>The statements the service sends to the server.\<close>

datatype stmt =
    InsertRaw raw_table raw_row
  | InsertCryptoData norm_record
  | InsertCheckpoint checkpoint
  | UpdateCheckpointsCompleted string
  | InsertRun etl_run
  | InsertSchemaDrift drift_log

text \<open>
  The state the engine changes: the tables, the journal of the statements the server has
  executed (in order), and how often the wall clock has been read.
\<close>

record world =
  raw_rows :: "raw_table \<Rightarrow> raw_row list"
  crypto_data :: "norm_record list"
  etl_checkpoints :: "checkpoint list"
  etl_runs :: "etl_run list"
  schema_drift_logs :: "drift_log list"
  journal :: "stmt list"
  clock_reads :: nat

definition empty_world :: world where
  "empty_world =
     \<lparr> raw_rows = (\<lambda>t. []), crypto_data = [], etl_checkpoints = [], etl_runs = [],
       schema_drift_logs = [], journal = [], clock_reads = 0 \<rparr>"

text \<open>
  What the code depends on and the repository does not contain: the settings of the
  process, the database server (\<open>pg s\<close> is the error the server answers statement \<open>s\<close>
  with, if any), the wall clock (its n-th reading), the HTTP endpoints (the outcome of the
  n-th request of an \<open>extract\<close> call to a source), \<open>difflib\<close>'s similarity ratio, the order
  in which a Python set of strings is iterated, and the conversions of Python and pydantic
  from a string.
\<close>

datatype body = JsonBody json | WrongContentType | InvalidJson

datatype http_outcome = Response nat body | RequestFailed string

record env =
  cfg :: settings
  pg :: "stmt \<Rightarrow> exn option"
  clock :: "nat \<Rightarrow> timestamp"
  http :: "string \<Rightarrow> nat \<Rightarrow> http_outcome"
  ratio :: "string \<Rightarrow> string \<Rightarrow> rat"
  set_iter :: "string list \<Rightarrow> string list"
  float_of_str :: "string \<Rightarrow> rat option"
  int_of_str :: "string \<Rightarrow> int option"
  decimal_of_str :: "string \<Rightarrow> rat option"

text \<open>\<open>datetime.now()\<close>.\<close>

definition now :: "env \<Rightarrow> world \<Rightarrow> timestamp \<times> world" where
  "now E w = (clock E (clock_reads w), w\<lparr>clock_reads := Suc (clock_reads w)\<rparr>)"


section \<open>Backoff controller\<close>



section \<open>Orchestrator\<close>

text \<open>
  A pipeline's \<open>run()\<close> returns a dictionary with the keys \<open>status\<close>, \<open>records_processed\<close>
  and \<open>duration\<close>, or raises. The orchestrator's entry for a failed source has the keys
  \<open>status\<close>, \<open>error\<close> and \<open>records_processed\<close>. One record holds both shapes.
\<close>

record source_result =
  status :: string
  records_processed :: nat
  duration :: "rat option"
  error :: "exn option"

type_synonym pipeline_run = "world \<Rightarrow> source_result res \<times> world"

record summary =
  overall_status :: string
  total_records :: nat
  summary_duration_seconds :: rat
  summary_start_time :: timestamp
  summary_end_time :: timestamp
  sources :: "(string \<times> source_result) list"
  failed_sources :: "string list"

text \<open>\<open>d[k] = v\<close> on a dictionary kept in insertion order.\<close>

fun dict_set :: "('k \<times> 'v) list \<Rightarrow> 'k \<Rightarrow> 'v \<Rightarrow> ('k \<times> 'v) list" where
  "dict_set [] k v = [(k, v)]"
| "dict_set ((k', v') # d) k v = (if k' = k then (k, v) # d else (k', v') # dict_set d k v)"

definition failed_entry :: "exn \<Rightarrow> source_result" where
  "failed_entry e = \<lparr> status = ''failed'', records_processed = 0, duration = None, error = Some e \<rparr>"

text \<open>
  The loop of \<open>run_full_etl\<close> over \<open>self.pipelines.items()\<close>, with its three accumulators
  \<open>results\<close>, \<open>total_records\<close> and \<open>failed_sources\<close>.
\<close>

fun run_pipelines ::
  "(string \<times> pipeline_run) list \<Rightarrow> (string \<times> source_result) list \<times> nat \<times> string list \<Rightarrow> world
    \<Rightarrow> ((string \<times> source_result) list \<times> nat \<times> string list) \<times> world" where
  "run_pipelines [] acc w = (acc, w)"
| "run_pipelines ((source_name, run) # ps) (results, tot, failed) w =
     (case run w of
        (Inr result, w') \<Rightarrow>
          run_pipelines ps
            (dict_set results source_name result, tot + records_processed result, failed) w'
      | (Inl e, w') \<Rightarrow>
          run_pipelines ps
            (dict_set results source_name (failed_entry e), tot, failed @ [source_name]) w')"

definition run_full_etl :: "env \<Rightarrow> (string \<times> pipeline_run) list \<Rightarrow> world \<Rightarrow> summary \<times> world" where
  "run_full_etl E pipelines w =
     (let (start, w1) = now E w;
          ((results, tot, failed), w2) = run_pipelines pipelines ([], 0, []) w1;
          (finish, w3) = now E w2;
          status1 = (if failed = [] then ''success'' else ''partial_failure'');
          status2 = (if length failed = length pipelines then ''failed'' else status1)
      in (\<lparr> overall_status = status2,
             total_records = tot,
             summary_duration_seconds = finish - start,
             summary_start_time = start,
             summary_end_time = finish,
             sources = results,
             failed_sources = failed \<rparr>, w3))"

text \<open>
  For the statement of the orchestrator's contract: what each registered pipeline's
  \<open>run()\<close> does when every one of them is invoked once, in registration order, each in
  the state its predecessor left.
\<close>

fun run_each :: "(string \<times> pipeline_run) list \<Rightarrow> world \<Rightarrow> (string \<times> source_result res) list \<times> world" where
  "run_each [] w = ([], w)"
| "run_each ((source_name, run) # ps) w =
     (let (out, w') = run w; (outs, w'') = run_each ps w' in ((source_name, out) # outs, w''))"

definition entry_of :: "source_result res \<Rightarrow> source_result" where
  "entry_of out = (case out of Inr result \<Rightarrow> result | Inl e \<Rightarrow> failed_entry e)"

definition records_of :: "source_result res \<Rightarrow> nat" where
  "records_of out = (case out of Inr result \<Rightarrow> records_processed result | Inl e \<Rightarrow> 0)"


section \<open>Database service\<close>

text \<open>
  \<open>crypto_data\<close> is declared \<open>UNIQUE(source, symbol, last_updated)\<close>, and
  \<open>save_normalized_data\<close> inserts with \<open>ON CONFLICT (source, symbol, last_updated) DO
  NOTHING\<close>: a row whose key is already in the table is skipped.
\<close>

definition conflict_key :: "norm_record \<Rightarrow> string \<times> string \<times> timestamp" where
  "conflict_key r = (source r, symbol r, last_updated r)"

definition insert_on_conflict_do_nothing :: "norm_record list \<Rightarrow> norm_record \<Rightarrow> norm_record list" where
  "insert_on_conflict_do_nothing rows r =
     (if conflict_key r \<in> conflict_key ` set rows then rows else rows @ [r])"

definition mark_completed :: "string \<Rightarrow> checkpoint \<Rightarrow> checkpoint" where
  "mark_completed src c = (if ck_source c = src \<and> \<not> completed c then c\<lparr>completed := True\<rparr> else c)"

text \<open>What a statement does to the tables once the server accepts it.\<close>

fun apply_stmt :: "stmt \<Rightarrow> world \<Rightarrow> world" where
  "apply_stmt (InsertRaw t row) w = w\<lparr>raw_rows := (raw_rows w)(t := raw_rows w t @ [row])\<rparr>"
| "apply_stmt (InsertCryptoData r) w =
     w\<lparr>crypto_data := insert_on_conflict_do_nothing (crypto_data w) r\<rparr>"
| "apply_stmt (InsertCheckpoint c) w = w\<lparr>etl_checkpoints := etl_checkpoints w @ [c]\<rparr>"
| "apply_stmt (UpdateCheckpointsCompleted src) w =
     w\<lparr>etl_checkpoints := map (mark_completed src) (etl_checkpoints w)\<rparr>"
| "apply_stmt (InsertRun r) w = w\<lparr>etl_runs := etl_runs w @ [r]\<rparr>"
| "apply_stmt (InsertSchemaDrift d) w = w\<lparr>schema_drift_logs := schema_drift_logs w @ [d]\<rparr>"

text \<open>
  \<open>conn.execute\<close>: the server either raises, and nothing changes, or executes the
  statement. No function of the service opens a transaction, so every statement is
  committed on its own.
\<close>

definition execute :: "env \<Rightarrow> stmt \<Rightarrow> world \<Rightarrow> unit res \<times> world" where
  "execute E s w =
     (case pg E s of
        Some e \<Rightarrow> (Inl e, w)
      | None \<Rightarrow> (Inr (), (apply_stmt s w)\<lparr>journal := journal w @ [s]\<rparr>))"

text \<open>Sequencing: an exception of the first step ends the computation.\<close>

definition and_then ::
  "'a res \<times> world \<Rightarrow> ('a \<Rightarrow> world \<Rightarrow> 'b res \<times> world) \<Rightarrow> 'b res \<times> world" where
  "and_then m f = (case m of (Inl e, w) \<Rightarrow> (Inl e, w) | (Inr x, w) \<Rightarrow> f x w)"

definition table_map :: "string \<Rightarrow> raw_table option" where
  "table_map src =
     (if src = ''coinpaprika'' then Some Raw_coinpaprika
      else if src = ''coingecko'' then Some Raw_coingecko
      else if src = ''csv'' then Some Raw_csv
      else None)"

text \<open>
  \<open>source_ids[idx] if source_ids and idx < len(source_ids) else None\<close>, for the optional
  argument \<open>source_ids\<close>.
\<close>

definition source_id_at :: "string list option \<Rightarrow> nat \<Rightarrow> string option" where
  "source_id_at source_ids idx =
     (case source_ids of
        None \<Rightarrow> None
      | Some ids \<Rightarrow> if ids \<noteq> [] \<and> idx < length ids then Some (ids ! idx) else None)"

text \<open>The loop of \<open>save_raw_data\<close> over \<open>enumerate(data)\<close>, from index \<open>idx\<close> on.\<close>

fun insert_raw_items ::
  "env \<Rightarrow> raw_table \<Rightarrow> string list option \<Rightarrow> nat \<Rightarrow> json list \<Rightarrow> world \<Rightarrow> unit res \<times> world" where
  "insert_raw_items E t source_ids idx [] w = (Inr (), w)"
| "insert_raw_items E t source_ids idx (item # items) w =
     and_then (execute E (InsertRaw t \<lparr> data = item, source_id = source_id_at source_ids idx \<rparr>) w)
       (\<lambda>_. insert_raw_items E t source_ids (Suc idx) items)"

definition save_raw_data ::
  "env \<Rightarrow> string \<Rightarrow> json list \<Rightarrow> string list option \<Rightarrow> world \<Rightarrow> unit res \<times> world" where
  "save_raw_data E src items source_ids w =
     (case table_map src of
        None \<Rightarrow> (Inl (ValueError (''Unknown source: '' @ src)), w)
      | Some t \<Rightarrow> insert_raw_items E t source_ids 0 items w)"

fun save_normalized_data :: "env \<Rightarrow> norm_record list \<Rightarrow> world \<Rightarrow> unit res \<times> world" where
  "save_normalized_data E [] w = (Inr (), w)"
| "save_normalized_data E (record # records) w =
     and_then (execute E (InsertCryptoData record) w) (\<lambda>_. save_normalized_data E records)"

definition save_checkpoint :: "env \<Rightarrow> string \<Rightarrow> json \<Rightarrow> nat \<Rightarrow> world \<Rightarrow> unit res \<times> world" where
  "save_checkpoint E src marker n w =
     execute E (InsertCheckpoint
       \<lparr> ck_source = src, checkpoint_data = marker, ck_records_processed = n, completed = False \<rparr>) w"

definition mark_checkpoint_completed :: "env \<Rightarrow> string \<Rightarrow> world \<Rightarrow> unit res \<times> world" where
  "mark_checkpoint_completed E src w = execute E (UpdateCheckpointsCompleted src) w"

text \<open>\<open>get_last_checkpoint\<close>: the newest checkpoint of the source that is not completed.\<close>

definition get_last_checkpoint :: "string \<Rightarrow> world \<Rightarrow> checkpoint option" where
  "get_last_checkpoint src w =
     (case filter (\<lambda>c. ck_source c = src \<and> \<not> completed c) (rev (etl_checkpoints w)) of
        [] \<Rightarrow> None
      | c # _ \<Rightarrow> Some c)"

definition log_run ::
  "env \<Rightarrow> string \<Rightarrow> string \<Rightarrow> nat \<Rightarrow> timestamp \<Rightarrow> timestamp option \<Rightarrow> exn option \<Rightarrow> json option
    \<Rightarrow> world \<Rightarrow> unit res \<times> world" where
  "log_run E src st records start finish err meta w =
     execute E (InsertRun
       \<lparr> run_source = src, run_status = st, run_records_processed = records,
         start_time = start, end_time = finish,
         duration_seconds = (case finish of None \<Rightarrow> None | Some t \<Rightarrow> Some (t - start)),
         error_message = err, metadata = meta \<rparr>) w"

definition log_schema_drift ::
  "env \<Rightarrow> string \<Rightarrow> (string \<times> string list) list \<Rightarrow> (string \<times> string) list \<Rightarrow> rat
    \<Rightarrow> drift_warning list \<Rightarrow> world \<Rightarrow> unit res \<times> world" where
  "log_schema_drift E src expected actual confidence ws w =
     execute E (InsertSchemaDrift
       \<lparr> dl_source = src, expected_schema = expected, actual_schema = actual,
         confidence_score = confidence, warnings = ws \<rparr>) w"


section \<open>Loading\<close>

text \<open>
  \<open>range(0, n, step)\<close> as the list of its elements; a step of zero raises, a negative
  step gives the empty range.
\<close>

definition range_from_zero :: "nat \<Rightarrow> int \<Rightarrow> nat list res" where
  "range_from_zero n step =
     (if step = 0 then Inl (ValueError ''range() arg 3 must not be zero'')
      else if step < 0 then Inr []
      else Inr (map (\<lambda>j. j * nat step) [0..<(n + nat step - 1) div nat step]))"

text \<open>
  \<open>CoinGeckoPipeline.load\<close> and \<open>CoinPaprikaPipeline.load\<close> have the same body; only
  \<open>SOURCE_NAME\<close> differs. The loop over the batch starts \<open>i\<close> carries \<open>total_loaded\<close>.
\<close>

fun load_batches ::
  "env \<Rightarrow> string \<Rightarrow> norm_record list \<Rightarrow> nat \<Rightarrow> nat list \<Rightarrow> nat \<Rightarrow> world \<Rightarrow> nat res \<times> world" where
  "load_batches E src normalized_data batch_size [] total_loaded w = (Inr total_loaded, w)"
| "load_batches E src normalized_data batch_size (i # rest) total_loaded w =
     (let batch = take batch_size (drop i normalized_data) in
      and_then (save_normalized_data E batch w) (\<lambda>_ w1.
        let total_loaded1 = total_loaded + length batch in
        and_then
          (if CHECKPOINT_ENABLED (cfg E)
           then save_checkpoint E src (JObj [(''last_index'', JInt (int (i + batch_size)))])
                  total_loaded1 w1
           else (Inr (), w1))
          (\<lambda>_. load_batches E src normalized_data batch_size rest total_loaded1)))"

definition load_with_checkpoints :: "env \<Rightarrow> string \<Rightarrow> norm_record list \<Rightarrow> world \<Rightarrow> unit res \<times> world" where
  "load_with_checkpoints E src normalized_data w =
     and_then
       (save_raw_data E src (map raw_data normalized_data) (Some (map symbol normalized_data)) w)
       (\<lambda>_ w1.
          case range_from_zero (length normalized_data) (CHECKPOINT_INTERVAL (cfg E)) of
            Inl e \<Rightarrow> (Inl e, w1)
          | Inr starts \<Rightarrow>
              and_then
                (load_batches E src normalized_data (nat (CHECKPOINT_INTERVAL (cfg E))) starts 0 w1)
                (\<lambda>total_loaded w2.
                   if CHECKPOINT_ENABLED (cfg E) then mark_checkpoint_completed E src w2
                   else (Inr (), w2)))"

definition coingecko_load :: "env \<Rightarrow> norm_record list \<Rightarrow> world \<Rightarrow> unit res \<times> world" where
  "coingecko_load E = load_with_checkpoints E ''coingecko''"

definition coinpaprika_load :: "env \<Rightarrow> norm_record list \<Rightarrow> world \<Rightarrow> unit res \<times> world" where
  "coinpaprika_load E = load_with_checkpoints E ''coinpaprika''"

text \<open>\<open>CSVPipeline.load\<close>: the raw rows, then all normalized records in one call.\<close>

definition csv_load :: "env \<Rightarrow> norm_record list \<Rightarrow> world \<Rightarrow> unit res \<times> world" where
  "csv_load E normalized_data w =
     and_then
       (save_raw_data E ''csv'' (map raw_data normalized_data) (Some (map symbol normalized_data)) w)
       (\<lambda>_. save_normalized_data E normalized_data)"


section \<open>Statement sequences\<close>

text \<open>
  For the statements of the loading contract: executing a list of statements in order
  until the server raises, the statements \<open>load\<close> sends for a batch and for a whole
  run (with checkpointing enabled or not, and a batch size of 0 standing for a negative
  \<open>CHECKPOINT_INTERVAL\<close>, whose range of batch starts is empty), and the effect of a list
  of accepted statements.
\<close>

fun execute_all :: "env \<Rightarrow> stmt list \<Rightarrow> world \<Rightarrow> unit res \<times> world" where
  "execute_all E [] w = (Inr (), w)"
| "execute_all E (s # ss) w = and_then (execute E s w) (\<lambda>_. execute_all E ss)"

definition accepted :: "env \<Rightarrow> stmt \<Rightarrow> bool" where
  "accepted E s = (pg E s = None)"

definition commit :: "world \<Rightarrow> stmt \<Rightarrow> world" where
  "commit w s = (apply_stmt s w)\<lparr>journal := journal w @ [s]\<rparr>"

definition raw_statement :: "raw_table \<Rightarrow> norm_record \<Rightarrow> stmt" where
  "raw_statement t r = InsertRaw t \<lparr> data = raw_data r, source_id = Some (symbol r) \<rparr>"

definition batch_of :: "nat \<Rightarrow> norm_record list \<Rightarrow> nat \<Rightarrow> norm_record list" where
  "batch_of batch_size normalized_data j = take batch_size (drop (j * batch_size) normalized_data)"

definition checkpoint_after :: "string \<Rightarrow> nat \<Rightarrow> nat \<Rightarrow> nat \<Rightarrow> checkpoint" where
  "checkpoint_after src batch_size n j =
     \<lparr> ck_source = src,
       checkpoint_data = JObj [(''last_index'', JInt (int ((j + 1) * batch_size)))],
       ck_records_processed = min ((j + 1) * batch_size) n,
       completed = False \<rparr>"

definition batch_statements :: "bool \<Rightarrow> string \<Rightarrow> nat \<Rightarrow> norm_record list \<Rightarrow> nat \<Rightarrow> stmt list" where
  "batch_statements enabled src batch_size normalized_data j =
     map InsertCryptoData (batch_of batch_size normalized_data j)
     @ (if enabled
        then [InsertCheckpoint (checkpoint_after src batch_size (length normalized_data) j)]
        else [])"

definition batch_count :: "nat \<Rightarrow> nat \<Rightarrow> nat" where
  "batch_count n batch_size = (if batch_size = 0 then 0 else (n + batch_size - 1) div batch_size)"

definition load_statements ::
  "bool \<Rightarrow> raw_table \<Rightarrow> string \<Rightarrow> nat \<Rightarrow> norm_record list \<Rightarrow> stmt list" where
  "load_statements enabled t src batch_size normalized_data =
     map (raw_statement t) normalized_data
     @ concat (map (batch_statements enabled src batch_size normalized_data)
         [0..<batch_count (length normalized_data) batch_size])
     @ (if enabled then [UpdateCheckpointsCompleted src] else [])"

text \<open>The rows a list of statements inserts into each table.\<close>

definition crypto_inserts :: "stmt list \<Rightarrow> norm_record list" where
  "crypto_inserts ss = concat (map (\<lambda>s. case s of InsertCryptoData r \<Rightarrow> [r] | _ \<Rightarrow> []) ss)"

definition raw_inserts :: "raw_table \<Rightarrow> stmt list \<Rightarrow> raw_row list" where
  "raw_inserts t ss =
     concat (map (\<lambda>s. case s of InsertRaw t' row \<Rightarrow> if t' = t then [row] else [] | _ \<Rightarrow> []) ss)"

definition checkpoint_inserts :: "stmt list \<Rightarrow> checkpoint list" where
  "checkpoint_inserts ss = concat (map (\<lambda>s. case s of InsertCheckpoint c \<Rightarrow> [c] | _ \<Rightarrow> []) ss)"

definition is_update :: "stmt \<Rightarrow> bool" where
  "is_update s = (case s of UpdateCheckpointsCompleted src \<Rightarrow> True | _ \<Rightarrow> False)"

definition is_raw_insert :: "stmt \<Rightarrow> bool" where
  "is_raw_insert s = (case s of InsertRaw t row \<Rightarrow> True | _ \<Rightarrow> False)"

definition raw_row_of :: "norm_record \<Rightarrow> raw_row" where
  "raw_row_of r = \<lparr> data = raw_data r, source_id = Some (symbol r) \<rparr>"


section \<open>Concrete inputs\<close>

text \<open>
  An environment for evaluating the functions on concrete inputs: the default settings, a
  server that enforces the \<open>VARCHAR(50)\<close> bound of \<open>crypto_data.symbol\<close> and accepts every
  other statement, a clock that advances by one second per reading, and conversions that
  know a few literals.
\<close>

definition example_pg :: "stmt \<Rightarrow> exn option" where
  "example_pg s =
     (case s of
        InsertCryptoData r \<Rightarrow>
          if 50 < length (symbol r) then Some (PostgresError ''value too long for type character varying(50)'')
          else None
      | _ \<Rightarrow> None)"

definition example_number :: "string \<Rightarrow> rat option" where
  "example_number s =
     (if s = ''1'' then Some 1 else if s = ''2.5'' then Some (5 / 2) else if s = ''0'' then Some 0
      else None)"

definition example_int :: "string \<Rightarrow> int option" where
  "example_int s = (if s = ''1'' then Some 1 else if s = ''0'' then Some 0 else None)"

definition example_env :: env where
  "example_env =
     \<lparr> cfg = default_settings,
       pg = example_pg,
       clock = (\<lambda>n. of_nat n),
       http = (\<lambda>src n. RequestFailed ''unreachable''),
       ratio = (\<lambda>a b. if a = b then 1 else 0),
       set_iter = (\<lambda>xs. xs),
       float_of_str = example_number,
       int_of_str = example_int,
       decimal_of_str = example_number \<rparr>"

text \<open>Stand-ins for a pipeline's \<open>run()\<close>, as the test suite patches them in.\<close>

definition run_returning :: "nat \<Rightarrow> pipeline_run" where
  "run_returning n w =
     (Inr \<lparr> status = ''success'', records_processed = n, duration = Some 1, error = None \<rparr>, w)"

definition run_raising :: "exn \<Rightarrow> pipeline_run" where
  "run_raising e w = (Inl e, w)"

text \<open>Two normalized records of the CoinGecko pipeline, stamped at second 100.\<close>

definition btc_record :: norm_record where
  "btc_record =
     \<lparr> source = ''coingecko'', symbol = ''BTC'', name = ''Bitcoin'', price_usd = 45000,
       market_cap_usd = 850000000000, volume_24h_usd = 25000000000, percent_change_24h = 5 / 2,
       rank = 1, last_updated = 100,
       raw_data = JObj [(''id'', JStr ''bitcoin''), (''symbol'', JStr ''btc'')] \<rparr>"

definition eth_record :: norm_record where
  "eth_record =
     \<lparr> source = ''coingecko'', symbol = ''ETH'', name = ''Ethereum'', price_usd = 3000,
       market_cap_usd = 360000000000, volume_24h_usd = 15000000000, percent_change_24h = 16 / 5,
       rank = 2, last_updated = 100,
       raw_data = JObj [(''id'', JStr ''ethereum''), (''symbol'', JStr ''eth'')] \<rparr>"


chapter \<open>Properties\<close>


section \<open>Backoff controller\<close>






section \<open>Orchestrator\<close>

lemma dict_set_fresh: "k \<notin> fst ` set d \<Longrightarrow> dict_set d k v = d @ [(k, v)]"
  by (induction d) auto

lemma run_each_Cons:
  "run_each ((n, run) # ps) w =
     ((n, fst (run w)) # fst (run_each ps (snd (run w))), snd (run_each ps (snd (run w))))"
  by (simp add: case_prod_beta)

lemma length_run_each: "length (fst (run_each ps w)) = length ps"
proof (induction ps arbitrary: w)
  case Nil
  show ?case by simp
next
  case (Cons p ps)
  obtain n run where "p = (n, run)" by (cases p)
  then show ?case using Cons.IH by (simp add: run_each_Cons del: run_each.simps)
qed

lemma map_fst_run_each: "map fst (fst (run_each ps w)) = map fst ps"
proof (induction ps arbitrary: w)
  case Nil
  show ?case by simp
next
  case (Cons p ps)
  obtain n run where "p = (n, run)" by (cases p)
  then show ?case using Cons.IH by (simp add: run_each_Cons del: run_each.simps)
qed

lemma all_and_none_failed:
  assumes "outs \<noteq> []" and "\<forall>out \<in> set outs. isl (snd out)"
  shows "filter (isl \<circ> snd) outs \<noteq> []"
  using assms by (cases outs) auto

lemma run_pipelines_acc:
  assumes "distinct (map fst ps)" and "fst ` set ps \<inter> fst ` set results = {}"
  shows "run_pipelines ps (results, tot, failed) w =
     ((results @ map (\<lambda>(n, out). (n, entry_of out)) (fst (run_each ps w)),
       tot + sum_list (map (records_of \<circ> snd) (fst (run_each ps w))),
       failed @ map fst (filter (isl \<circ> snd) (fst (run_each ps w)))),
      snd (run_each ps w))"
  using assms
proof (induction ps arbitrary: results tot failed w)
  case Nil
  then show ?case by simp
next
  case (Cons p ps)
  obtain n run where p: "p = (n, run)" by (cases p)
  obtain out w' where r: "run w = (out, w')" by (cases "run w")
  have fresh: "n \<notin> fst ` set results" using Cons.prems(2) p by auto
  have d: "distinct (map fst ps)" using Cons.prems(1) by simp
  have disj: "fst ` set ps \<inter> fst ` set (results @ [(n, v)]) = {}" for v
    using Cons.prems p by auto
  show ?case
  proof (cases out)
    case (Inl e)
    then show ?thesis
      using Cons.IH[OF d disj] r p fresh
      by (simp add: dict_set_fresh entry_of_def records_of_def split: prod.splits)
  next
    case (Inr res)
    then show ?thesis
      using Cons.IH[OF d disj] r p fresh
      by (simp add: dict_set_fresh entry_of_def records_of_def split: prod.splits)
  qed
qed


lemma length_filter_all: "length (filter P xs) = length xs \<longleftrightarrow> (\<forall>x \<in> set xs. P x)"
  by (metis filter_id_conv filter_True sum_length_filter_compl add_cancel_right_right length_0_conv filter_empty_conv)

text \<open>
  Claim C3. For a registry that is not empty and whose source names are distinct (it is a
  dictionary), \<open>run_full_etl\<close> invokes every pipeline once in registration order, whatever
  the earlier ones did: the state it returns is the one the last pipeline left, read the
  clock once more. Every source has an entry; the entry of a source whose \<open>run()\<close> raised
  \<open>e\<close> has status \<open>failed\<close>, zero records and the error; \<open>failed_sources\<close> lists those
  sources; \<open>total_records\<close> is the sum over the pipelines that returned; and the overall
  status is \<open>success\<close> when none failed, \<open>failed\<close> when all failed and \<open>partial_failure\<close>
  otherwise.
\<close>

theorem run_full_etl_summary:
  assumes "ps \<noteq> []" and "distinct (map fst ps)"
  shows "(let outs = fst (run_each ps (snd (now E w)));
              s = fst (run_full_etl E ps w)
          in snd (run_full_etl E ps w) = snd (now E (snd (run_each ps (snd (now E w)))))
           \<and> map fst outs = map fst ps
           \<and> sources s = map (\<lambda>(n, out). (n, entry_of out)) outs
           \<and> (\<forall>(n, out) \<in> set outs. \<forall>e. out = Inl e \<longrightarrow>
                 map_of (sources s) n =
                   Some \<lparr> status = ''failed'', records_processed = 0, duration = None, error = Some e \<rparr>)
           \<and> failed_sources s = map fst (filter (isl \<circ> snd) outs)
           \<and> total_records s = sum_list (map (records_of \<circ> snd) outs)
           \<and> overall_status s =
                (if \<forall>out \<in> set outs. \<not> isl (snd out) then ''success''
                 else if \<forall>out \<in> set outs. isl (snd out) then ''failed''
                 else ''partial_failure''))"
proof -
  define w1 where "w1 = snd (now E w)"
  define outs where "outs = fst (run_each ps w1)"
  define w2 where "w2 = snd (run_each ps w1)"
  define failed where "failed = map fst (filter (isl \<circ> snd) outs)"
  have loop: "run_pipelines ps ([], 0, []) w1 =
      ((map (\<lambda>(n, out). (n, entry_of out)) outs,
        sum_list (map (records_of \<circ> snd) outs), failed), w2)"
    using run_pipelines_acc[OF assms(2), of "[]" 0 "[]" w1]
    by (simp add: outs_def w2_def failed_def)
  have len: "length outs = length ps"
    by (simp add: outs_def length_run_each)
  have names: "map fst outs = map fst ps"
    by (simp add: outs_def map_fst_run_each)
  have none: "failed = [] \<longleftrightarrow> (\<forall>out \<in> set outs. \<not> isl (snd out))"
    by (simp add: failed_def filter_empty_conv)
  have every: "length failed = length ps \<longleftrightarrow> (\<forall>out \<in> set outs. isl (snd out))"
    unfolding failed_def length_map len[symmetric] by (simp add: length_filter_all)
  have not_both: "\<not> ((\<forall>out \<in> set outs. \<not> isl (snd out)) \<and> (\<forall>out \<in> set outs. isl (snd out)))"
    using assms(1) len by (cases outs) auto
  have full: "run_full_etl E ps w =
      (\<lparr> overall_status =
            (if length failed = length ps then ''failed''
             else if failed = [] then ''success'' else ''partial_failure''),
          total_records = sum_list (map (records_of \<circ> snd) outs),
          summary_duration_seconds = fst (now E w2) - fst (now E w),
          summary_start_time = fst (now E w),
          summary_end_time = fst (now E w2),
          sources = map (\<lambda>(n, out). (n, entry_of out)) outs,
          failed_sources = failed \<rparr>, snd (now E w2))"
    unfolding run_full_etl_def using loop
    by (simp add: w1_def case_prod_beta Let_def)
  have dist: "distinct (map fst (map (\<lambda>(n, out). (n, entry_of out)) outs))"
    using assms(2) names by (simp add: case_prod_beta comp_def)
  have entry: "map_of (map (\<lambda>(n, out). (n, entry_of out)) outs) n = Some (failed_entry e)"
    if "(n, Inl e) \<in> set outs" for n e
  proof -
    have "(n, failed_entry e) \<in> set (map (\<lambda>(n, out). (n, entry_of out)) outs)"
      using that by (force simp: entry_of_def)
    then show ?thesis using dist by (simp only: map_of_eq_Some_iff)
  qed
  show ?thesis
    unfolding Let_def w1_def[symmetric] outs_def[symmetric] w2_def[symmetric] full fst_conv snd_conv
    using names none every not_both entry
    by (auto simp: failed_def[symmetric] failed_entry_def)
qed

theorem run_full_etl_summary_witness:
  "[(''coinpaprika'', run_returning 10), (''coingecko'', run_raising (ClientError ''down'')),
    (''csv'', run_returning 5)] \<noteq> []
   \<and> distinct (map fst [(''coinpaprika'', run_returning 10),
         (''coingecko'', run_raising (ClientError ''down'')), (''csv'', run_returning 5)])
   \<and> overall_status (fst (run_full_etl example_env
         [(''coinpaprika'', run_returning 10), (''coingecko'', run_raising (ClientError ''down'')),
          (''csv'', run_returning 5)] empty_world)) = ''partial_failure''
   \<and> total_records (fst (run_full_etl example_env
         [(''coinpaprika'', run_returning 10), (''coingecko'', run_raising (ClientError ''down'')),
          (''csv'', run_returning 5)] empty_world)) = 15
   \<and> failed_sources (fst (run_full_etl example_env
         [(''coinpaprika'', run_returning 10), (''coingecko'', run_raising (ClientError ''down'')),
          (''csv'', run_returning 5)] empty_world)) = [''coingecko'']
   \<and> map_of (sources (fst (run_full_etl example_env
         [(''coinpaprika'', run_returning 10), (''coingecko'', run_raising (ClientError ''down'')),
          (''csv'', run_returning 5)] empty_world))) ''coingecko'' =
       Some \<lparr> status = ''failed'', records_processed = 0, duration = None,
              error = Some (ClientError ''down'') \<rparr>"
  using run_full_etl_summary [of "[(''coinpaprika'', run_returning 10),
      (''coingecko'', run_raising (ClientError ''down'')), (''csv'', run_returning 5)]"
      example_env empty_world]
  by (simp add: Let_def run_returning_def run_raising_def records_of_def entry_of_def
      failed_entry_def now_def)


section \<open>Executing statements\<close>

lemma and_then_Inl [simp]: "and_then (Inl e, w) f = (Inl e, w)"
  by (simp add: and_then_def)

lemma and_then_Inr [simp]: "and_then (Inr x, w) f = f x w"
  by (simp add: and_then_def)

lemma execute_accepted: "accepted E s \<Longrightarrow> execute E s w = (Inr (), commit w s)"
  by (simp add: execute_def accepted_def commit_def)

lemma execute_rejected: "pg E s = Some e \<Longrightarrow> execute E s w = (Inl e, w)"
  by (simp add: execute_def)

lemma execute_all_append:
  "execute_all E (xs @ ys) w = and_then (execute_all E xs w) (\<lambda>_. execute_all E ys)"
proof (induction xs arbitrary: w)
  case Nil
  show ?case by simp
next
  case (Cons s xs)
  show ?case
  proof (cases "pg E s")
    case None
    then show ?thesis using Cons.IH by (simp add: execute_def)
  next
    case (Some e)
    then show ?thesis by (simp add: execute_def)
  qed
qed

lemma execute_all_world:
  "snd (execute_all E ss w) = foldl commit w (takeWhile (accepted E) ss)"
proof (induction ss arbitrary: w)
  case Nil
  show ?case by simp
next
  case (Cons s ss)
  show ?case
  proof (cases "pg E s")
    case None
    then show ?thesis using Cons.IH by (simp add: execute_def accepted_def commit_def)
  next
    case (Some e)
    then show ?thesis by (simp add: execute_def accepted_def)
  qed
qed

lemma execute_all_result:
  "fst (execute_all E ss w) =
     (case dropWhile (accepted E) ss of [] \<Rightarrow> Inr () | s # _ \<Rightarrow> Inl (the (pg E s)))"
proof (induction ss arbitrary: w)
  case Nil
  show ?case by simp
next
  case (Cons s ss)
  show ?case
  proof (cases "pg E s")
    case None
    then show ?thesis using Cons.IH by (simp add: execute_def accepted_def)
  next
    case (Some e)
    then show ?thesis by (simp add: execute_def accepted_def)
  qed
qed

lemma journal_commit [simp]: "journal (commit w s) = journal w @ [s]"
  by (simp add: commit_def)

lemma journal_foldl_commit: "journal (foldl commit w ss) = journal w @ ss"
  by (induction ss arbitrary: w) simp_all

lemma save_normalized_data_script:
  "save_normalized_data E rs w = execute_all E (map InsertCryptoData rs) w"
  by (induction rs arbitrary: w) (simp_all add: and_then_def execute_def split: option.splits)

lemma insert_raw_items_script:
  fixes pre rs :: "norm_record list"
  shows "insert_raw_items E t (Some (map symbol pre @ map symbol rs)) (length pre) (map raw_data rs) w =
     execute_all E (map (raw_statement t) rs) w"
proof (induction rs arbitrary: pre w)
  case Nil
  show ?case by simp
next
  case (Cons r rs)
  have at: "source_id_at (Some (map symbol pre @ symbol r # map symbol rs)) (length pre) = Some (symbol r)"
    by (simp add: source_id_at_def nth_append)
  have step: "insert_raw_items E t (Some (map symbol pre @ symbol r # map symbol rs)) (Suc (length pre))
        (map raw_data rs) w' = execute_all E (map (raw_statement t) rs) w'" for w'
    using Cons.IH[of "pre @ [r]" w'] by simp
  have first: "InsertRaw t \<lparr> data = raw_data r, source_id = Some (symbol r) \<rparr> = raw_statement t r"
    by (simp add: raw_statement_def)
  show ?case
    by (cases "pg E (raw_statement t r)")
       (simp_all add: at step first execute_def)
qed

lemma save_raw_data_script:
  fixes rs :: "norm_record list"
  assumes "table_map src = Some t"
  shows "save_raw_data E src (map raw_data rs) (Some (map symbol rs)) w =
     execute_all E (map (raw_statement t) rs) w"
  using insert_raw_items_script[where pre="[]" and rs=rs and E=E and t=t and w=w] assms by (simp add: save_raw_data_def)

subsection \<open>Inserting with \<open>ON CONFLICT DO NOTHING\<close>\<close>

lemma keys_insert:
  "conflict_key ` set (insert_on_conflict_do_nothing rows r) =
     insert (conflict_key r) (conflict_key ` set rows)"
  by (auto simp: insert_on_conflict_do_nothing_def)

lemma keys_foldl_insert:
  "conflict_key ` set (foldl insert_on_conflict_do_nothing rows rs) =
     conflict_key ` set rows \<union> conflict_key ` set rs"
  by (induction rs arbitrary: rows) (auto simp: keys_insert)

lemma foldl_insert_present:
  "conflict_key ` set rs \<subseteq> conflict_key ` set rows \<Longrightarrow>
     foldl insert_on_conflict_do_nothing rows rs = rows"
  by (induction rs arbitrary: rows) (auto simp: insert_on_conflict_do_nothing_def)

lemma distinct_keys_insert:
  "distinct (map conflict_key rows) \<Longrightarrow>
     distinct (map conflict_key (insert_on_conflict_do_nothing rows r))"
  by (auto simp: insert_on_conflict_do_nothing_def)

lemma distinct_keys_foldl_insert:
  "distinct (map conflict_key rows) \<Longrightarrow>
     distinct (map conflict_key (foldl insert_on_conflict_do_nothing rows rs))"
  by (induction rs arbitrary: rows) (auto simp: distinct_keys_insert)

lemma foldl_insert_twice:
  "foldl insert_on_conflict_do_nothing (foldl insert_on_conflict_do_nothing rows rs) rs =
     foldl insert_on_conflict_do_nothing rows rs"
  by (rule foldl_insert_present) (simp add: keys_foldl_insert)

lemma foldl_insert_extends:
  "\<exists>new. foldl insert_on_conflict_do_nothing rows rs = rows @ new"
proof (induction rs arbitrary: rows)
  case Nil
  show ?case by simp
next
  case (Cons r rs)
  obtain new where new: "foldl insert_on_conflict_do_nothing (insert_on_conflict_do_nothing rows r) rs =
      insert_on_conflict_do_nothing rows r @ new"
    using Cons.IH by blast
  show ?case
  proof (cases "conflict_key r \<in> conflict_key ` set rows")
    case True
    then have "insert_on_conflict_do_nothing rows r = rows"
      by (simp add: insert_on_conflict_do_nothing_def)
    then show ?thesis using new by simp
  next
    case False
    then have "insert_on_conflict_do_nothing rows r = rows @ [r]"
      by (simp add: insert_on_conflict_do_nothing_def)
    then show ?thesis using new by simp
  qed
qed

lemma one_row_per_key:
  assumes "distinct (map conflict_key rows)" and "k \<in> conflict_key ` set rows"
  shows "length (filter (\<lambda>row. conflict_key row = k) rows) = 1"
  using assms
proof (induction rows)
  case Nil
  then show ?case by simp
next
  case (Cons r rows)
  show ?case
  proof (cases "conflict_key r = k")
    case True
    then have "k \<notin> conflict_key ` set rows" using Cons.prems(1) by auto
    then have "filter (\<lambda>row. conflict_key row = k) rows = []"
      by (auto simp: filter_empty_conv)
    then show ?thesis using True by simp
  next
    case False
    then have "k \<in> conflict_key ` set rows" using Cons.prems(2) by auto
    then show ?thesis using Cons.IH Cons.prems(1) False by simp
  qed
qed

subsection \<open>All statements accepted\<close>

lemma execute_all_succeeds_iff:
  "fst (execute_all E ss w) = Inr () \<longleftrightarrow> (\<forall>s \<in> set ss. accepted E s)"
proof (cases "dropWhile (accepted E) ss")
  case Nil
  then have "\<forall>s \<in> set ss. accepted E s"
    by (simp add: dropWhile_eq_Nil_conv)
  moreover have "fst (execute_all E ss w) = Inr ()"
    unfolding execute_all_result Nil by simp
  ultimately show ?thesis by simp
next
  case (Cons s rest)
  then have "\<not> (\<forall>s \<in> set ss. accepted E s)"
    by (metis dropWhile_eq_Nil_conv list.distinct(1))
  moreover have "fst (execute_all E ss w) \<noteq> Inr ()"
    unfolding execute_all_result Cons by simp
  ultimately show ?thesis by simp
qed

lemma takeWhile_all: "\<forall>x \<in> set xs. P x \<Longrightarrow> takeWhile P xs = xs"
  by (induction xs) simp_all

lemma execute_all_accepted:
  assumes "\<forall>s \<in> set ss. accepted E s"
  shows "execute_all E ss w = (Inr (), foldl commit w ss)"
proof -
  have "snd (execute_all E ss w) = foldl commit w ss"
    unfolding execute_all_world takeWhile_all[OF assms] ..
  moreover have "fst (execute_all E ss w) = Inr ()"
    using assms by (simp only: execute_all_succeeds_iff)
  ultimately show ?thesis by (metis prod.collapse)
qed

lemma execute_all_journal:
  "journal (snd (execute_all E ss w)) = journal w @ takeWhile (accepted E) ss"
  by (simp add: execute_all_world journal_foldl_commit)

section \<open>The statements a load sends\<close>

lemma and_then_assoc:
  "and_then (and_then m f) g = and_then m (\<lambda>x w. and_then (f x w) g)"
  by (simp add: and_then_def split: prod.splits sum.splits)

lemma and_then_unit: "and_then m (\<lambda>_ w. (Inr (), w)) = m"
  by (auto simp: and_then_def split: prod.splits sum.splits)

lemma execute_all_single: "execute_all E [s] w = execute E s w"
  by (auto simp: and_then_def split: prod.splits sum.splits)

lemma batch_count_gt:
  assumes "0 < bs" and "j < batch_count n bs"
  shows "j * bs < n"
proof -
  have "Suc j \<le> (n + bs - 1) div bs"
    using assms by (simp add: batch_count_def)
  then have "Suc j * bs \<le> (n + bs - 1) div bs * bs"
    by (rule mult_le_mono1)
  also have "\<dots> \<le> n + bs - 1"
    by simp
  finally show ?thesis using assms(1) by simp
qed

lemma cumulative_count:
  assumes "0 < bs" and "j < batch_count (length nd) bs"
  shows "min (j * bs) (length nd) + length (take bs (drop (j * bs) nd)) = min (Suc j * bs) (length nd)"
  using batch_count_gt[OF assms] by (auto simp: min_def)

lemma load_batches_script:
  assumes pos: "0 < bs" and le: "a \<le> batch_count (length nd) bs"
  shows "load_batches E src nd bs (map (\<lambda>j. j * bs) [a..<batch_count (length nd) bs])
           (min (a * bs) (length nd)) w =
         and_then (execute_all E (concat (map (batch_statements (CHECKPOINT_ENABLED (cfg E)) src bs nd)
                     [a..<batch_count (length nd) bs])) w)
           (\<lambda>_ w'. (Inr (min (batch_count (length nd) bs * bs) (length nd)), w'))"
  using le
proof (induction "batch_count (length nd) bs - a" arbitrary: a w)
  case 0
  then show ?case by simp
next
  case (Suc k)
  define en where "en = CHECKPOINT_ENABLED (cfg E)"
  define nb where "nb = batch_count (length nd) bs"
  define B where "B = take bs (drop (a * bs) nd)"
  define M where "M = JObj [(''last_index'', JInt (int (a * bs + bs)))]"
  define tot where "tot = min (Suc a * bs) (length nd)"
  define K :: "unit \<Rightarrow> world \<Rightarrow> nat res \<times> world"
    where "K = (\<lambda>_ w'. (Inr (min (nb * bs) (length nd)), w'))"
  define restS where "restS = concat (map (batch_statements en src bs nd) [Suc a..<nb])"
  have lt: "a < nb" using Suc.hyps(2) by (simp add: nb_def)
  have upt: "[a..<nb] = a # [Suc a..<nb]" using lt by (simp add: upt_conv_Cons)
  have cum: "min (a * bs) (length nd) + length B = tot"
    unfolding B_def tot_def using cumulative_count[OF pos, of a nd] lt
    by (simp add: nb_def)
  have IH: "load_batches E src nd bs (map (\<lambda>j. j * bs) [Suc a..<nb]) tot w' =
         and_then (execute_all E restS w') K" for w'
    using Suc.hyps(1)[of "Suc a" w'] Suc.hyps(2) lt
    by (simp add: nb_def tot_def K_def restS_def en_def)
  have L: "load_batches E src nd bs (map (\<lambda>j. j * bs) [a..<nb]) (min (a * bs) (length nd)) w =
      and_then (save_normalized_data E B w) (\<lambda>_ w1.
        and_then (if en then save_checkpoint E src M tot w1 else (Inr (), w1))
          (\<lambda>_. load_batches E src nd bs (map (\<lambda>j. j * bs) [Suc a..<nb]) tot))"
    unfolding upt list.map load_batches.simps Let_def B_def[symmetric] M_def[symmetric] cum
      en_def[symmetric] ..
  have ck: "InsertCheckpoint (checkpoint_after src bs (length nd) a) =
      InsertCheckpoint \<lparr> ck_source = src, checkpoint_data = M, ck_records_processed = tot,
        completed = False \<rparr>"
    by (simp add: checkpoint_after_def M_def tot_def)
  have R: "execute_all E (concat (map (batch_statements en src bs nd) [a..<nb])) w =
      and_then (save_normalized_data E B w) (\<lambda>_ w1.
        and_then (if en then save_checkpoint E src M tot w1 else (Inr (), w1))
          (\<lambda>_. execute_all E restS))"
  proof (cases en)
    case True
    show ?thesis
      unfolding upt list.map concat.simps restS_def[symmetric] batch_statements_def batch_of_def
        B_def[symmetric] ck
      using True
      by (simp only: execute_all_append and_then_assoc execute_all.simps if_True
          save_normalized_data_script save_checkpoint_def append_Cons append_Nil and_then_Inr)
  next
    case False
    show ?thesis
      unfolding upt list.map concat.simps restS_def[symmetric] batch_statements_def batch_of_def
        B_def[symmetric]
      using False
      by (simp only: execute_all_append and_then_assoc execute_all.simps if_False
          save_normalized_data_script append_Nil append_Nil2 and_then_Inr)
  qed
  show ?case
    unfolding nb_def[symmetric] K_def[symmetric] en_def[symmetric] L R IH and_then_assoc ..
qed

lemma range_from_zero_nonzero:
  "step \<noteq> 0 \<Longrightarrow>
     range_from_zero n step = Inr (map (\<lambda>j. j * nat step) [0..<batch_count n (nat step)])"
  by (simp add: range_from_zero_def batch_count_def)

lemma save_normalized_data_script_fun:
  "save_normalized_data E rs = execute_all E (map InsertCryptoData rs)"
  by (rule ext) (rule save_normalized_data_script)

lemma execute_all_single_fun: "execute_all E [s] = execute E s"
  by (rule ext) (rule execute_all_single)

lemma execute_all_append_fun:
  "execute_all E (xs @ ys) = (\<lambda>w. and_then (execute_all E xs w) (\<lambda>_. execute_all E ys))"
  by (rule ext) (rule execute_all_append)

lemma execute_all_Nil_fun: "execute_all E [] = (\<lambda>w. (Inr (), w))"
  by (rule ext) simp

lemma load_with_checkpoints_script:
  assumes tm: "table_map src = Some t" and nz: "CHECKPOINT_INTERVAL (cfg E) \<noteq> 0"
  shows "load_with_checkpoints E src nd w =
     execute_all E (load_statements (CHECKPOINT_ENABLED (cfg E)) t src
       (nat (CHECKPOINT_INTERVAL (cfg E))) nd) w"
proof -
  define bs where "bs = nat (CHECKPOINT_INTERVAL (cfg E))"
  define en where "en = CHECKPOINT_ENABLED (cfg E)"
  define batches where "batches = concat (map (batch_statements en src bs nd)
      [0..<batch_count (length nd) bs])"
  have loop: "load_batches E src nd bs (map (\<lambda>j. j * bs) [0..<batch_count (length nd) bs]) 0 w1 =
      and_then (execute_all E batches w1)
        (\<lambda>_ w'. (Inr (min (batch_count (length nd) bs * bs) (length nd)), w'))" for w1
  proof (cases "0 < bs")
    case True
    show ?thesis
      using load_batches_script[OF True, of 0 nd E src w1] by (simp add: batches_def en_def)
  next
    case False
    then show ?thesis by (simp add: batches_def batch_count_def)
  qed
  have tail: "and_then (execute_all E batches w1)
        (\<lambda>_ w2. if en then mark_checkpoint_completed E src w2 else (Inr (), w2)) =
      execute_all E (batches @ (if en then [UpdateCheckpointsCompleted src] else [])) w1" for w1
    by (cases en)
       (simp_all add: execute_all_append mark_checkpoint_completed_def execute_all_single_fun
          execute_all_Nil_fun and_then_unit del: execute_all.simps)
  show ?thesis
    unfolding load_with_checkpoints_def load_statements_def bs_def[symmetric] en_def[symmetric]
      batches_def[symmetric]
    by (simp add: save_raw_data_script[OF tm] range_from_zero_nonzero[OF nz] loop
        bs_def[symmetric] and_then_assoc tail execute_all_append_fun[of E "map (raw_statement t) nd"]
        del: execute_all.simps)
qed

lemma load_with_checkpoints_zero_interval:
  assumes tm: "table_map src = Some t" and z: "CHECKPOINT_INTERVAL (cfg E) = 0"
  shows "load_with_checkpoints E src nd w =
     and_then (execute_all E (map (raw_statement t) nd) w)
       (\<lambda>_ w1. (Inl (ValueError ''range() arg 3 must not be zero''), w1))"
  unfolding load_with_checkpoints_def
  by (simp add: save_raw_data_script[OF tm] z range_from_zero_def)

lemma csv_load_script:
  "csv_load E nd w = execute_all E (map (raw_statement Raw_csv) nd @ map InsertCryptoData nd) w"
  unfolding csv_load_def
  by (simp add: save_raw_data_script[of "''csv''" Raw_csv] table_map_def execute_all_append
      save_normalized_data_script_fun)

lemma crypto_data_commit:
  "crypto_data (commit w s) =
     foldl insert_on_conflict_do_nothing (crypto_data w) (crypto_inserts [s])"
  by (cases s) (simp_all add: commit_def crypto_inserts_def)

lemma crypto_inserts_Cons: "crypto_inserts (s # ss) = crypto_inserts [s] @ crypto_inserts ss"
  by (simp add: crypto_inserts_def)

lemma crypto_data_foldl_commit:
  "crypto_data (foldl commit w ss) =
     foldl insert_on_conflict_do_nothing (crypto_data w) (crypto_inserts ss)"
proof (induction ss arbitrary: w)
  case Nil
  show ?case by (simp add: crypto_inserts_def)
next
  case (Cons s ss)
  show ?case
    by (simp add: Cons.IH crypto_data_commit crypto_inserts_Cons[of s ss])
qed

lemma raw_inserts_Cons: "raw_inserts t (s # ss) = raw_inserts t [s] @ raw_inserts t ss"
  by (simp add: raw_inserts_def)

lemma raw_rows_commit: "raw_rows (commit w s) t = raw_rows w t @ raw_inserts t [s]"
  by (cases s) (simp_all add: commit_def raw_inserts_def)

lemma raw_rows_foldl_commit: "raw_rows (foldl commit w ss) t = raw_rows w t @ raw_inserts t ss"
proof (induction ss arbitrary: w)
  case Nil
  show ?case by (simp add: raw_inserts_def)
next
  case (Cons s ss)
  show ?case
    by (simp add: Cons.IH raw_rows_commit raw_inserts_Cons[of t s ss])
qed

lemma checkpoint_inserts_Cons:
  "checkpoint_inserts (s # ss) = checkpoint_inserts [s] @ checkpoint_inserts ss"
  by (simp add: checkpoint_inserts_def)

lemma etl_checkpoints_commit:
  "\<not> is_update s \<Longrightarrow> etl_checkpoints (commit w s) = etl_checkpoints w @ checkpoint_inserts [s]"
  by (cases s) (simp_all add: commit_def checkpoint_inserts_def is_update_def)

lemma etl_checkpoints_foldl_commit:
  "\<forall>s \<in> set ss. \<not> is_update s \<Longrightarrow>
     etl_checkpoints (foldl commit w ss) = etl_checkpoints w @ checkpoint_inserts ss"
proof (induction ss arbitrary: w)
  case Nil
  show ?case by (simp add: checkpoint_inserts_def)
next
  case (Cons s ss)
  then show ?case
    by (simp add: etl_checkpoints_commit checkpoint_inserts_Cons[of s ss])
qed

lemma etl_runs_foldl_commit_load:
  "\<forall>s \<in> set ss. (case s of InsertRun r \<Rightarrow> False | _ \<Rightarrow> True) \<Longrightarrow>
     etl_runs (foldl commit w ss) = etl_runs w"
proof (induction ss arbitrary: w)
  case Nil
  show ?case by simp
next
  case (Cons s ss)
  then show ?case by (cases s) (simp_all add: commit_def)
qed

subsection \<open>What the statements of a load insert\<close>

lemma crypto_inserts_append [simp]:
  "crypto_inserts (xs @ ys) = crypto_inserts xs @ crypto_inserts ys"
  by (simp add: crypto_inserts_def)

lemma crypto_inserts_inserts [simp]: "crypto_inserts (map InsertCryptoData rs) = rs"
  by (induction rs) (simp_all add: crypto_inserts_def)

lemma crypto_inserts_raw [simp]: "crypto_inserts (map (raw_statement t) rs) = []"
  by (induction rs) (simp_all add: crypto_inserts_def raw_statement_def)

lemma crypto_inserts_batch [simp]:
  "crypto_inserts (batch_statements en src bs nd j) = batch_of bs nd j"
  by (simp add: batch_statements_def) (simp add: crypto_inserts_def)

lemma crypto_inserts_tail [simp]:
  "crypto_inserts (if en then [UpdateCheckpointsCompleted src] else []) = []"
  by (simp add: crypto_inserts_def)

lemma crypto_inserts_batches:
  "crypto_inserts (concat (map (batch_statements en src bs nd) [0..<m])) = take (m * bs) nd"
proof (induction m)
  case 0
  show ?case by (simp add: crypto_inserts_def)
next
  case (Suc m)
  have "take (m * bs) nd @ take bs (drop (m * bs) nd) = take (m * bs + bs) nd"
    by (simp add: take_add)
  then show ?case using Suc by (simp add: batch_of_def add.commute)
qed

lemma batch_count_covers: "0 < bs \<Longrightarrow> n \<le> batch_count n bs * bs"
proof -
  assume pos: "0 < bs"
  have "n + bs - 1 < ((n + bs - 1) div bs) * bs + bs"
    using pos by (metis add.commute div_mult_mod_eq mod_less_divisor mult.commute nat_add_left_cancel_less)
  then show ?thesis using pos by (simp add: batch_count_def)
qed

lemma crypto_inserts_load:
  "crypto_inserts (load_statements en t src bs nd) = (if bs = 0 then [] else nd)"
proof (cases "bs = 0")
  case True
  then show ?thesis by (simp add: load_statements_def batch_count_def)
next
  case False
  then have "length nd \<le> batch_count (length nd) bs * bs"
    by (simp add: batch_count_covers)
  then show ?thesis using False
    by (simp add: load_statements_def crypto_inserts_batches)
qed

lemma raw_inserts_append [simp]: "raw_inserts t (xs @ ys) = raw_inserts t xs @ raw_inserts t ys"
  by (simp add: raw_inserts_def)

lemma raw_inserts_raw:
  "raw_inserts t' (map (raw_statement t) rs) =
     (if t' = t then map (\<lambda>r. \<lparr> data = raw_data r, source_id = Some (symbol r) \<rparr>) rs else [])"
  by (induction rs) (simp_all add: raw_inserts_def raw_statement_def)

lemma raw_inserts_inserts [simp]: "raw_inserts t (map InsertCryptoData rs) = []"
  by (induction rs) (simp_all add: raw_inserts_def)

lemma raw_inserts_batches [simp]:
  "raw_inserts t (concat (map (batch_statements en src bs nd) js)) = []"
  by (induction js) (simp_all add: batch_statements_def, simp_all add: raw_inserts_def)

lemma raw_inserts_tail [simp]:
  "raw_inserts t (if en then [UpdateCheckpointsCompleted src] else []) = []"
  by (simp add: raw_inserts_def)

lemma raw_inserts_load:
  "raw_inserts t' (load_statements en t src bs nd) =
     (if t' = t then map (\<lambda>r. \<lparr> data = raw_data r, source_id = Some (symbol r) \<rparr>) nd else [])"
  by (simp add: load_statements_def raw_inserts_raw)

lemma checkpoint_inserts_append [simp]:
  "checkpoint_inserts (xs @ ys) = checkpoint_inserts xs @ checkpoint_inserts ys"
  by (simp add: checkpoint_inserts_def)

lemma checkpoint_inserts_raw [simp]: "checkpoint_inserts (map (raw_statement t) rs) = []"
  by (induction rs) (simp_all add: checkpoint_inserts_def raw_statement_def)

lemma checkpoint_inserts_inserts [simp]: "checkpoint_inserts (map InsertCryptoData rs) = []"
  by (induction rs) (simp_all add: checkpoint_inserts_def)

lemma checkpoint_inserts_batches:
  "checkpoint_inserts (concat (map (batch_statements True src bs nd) js)) =
     map (checkpoint_after src bs (length nd)) js"
  by (induction js) (simp_all add: batch_statements_def, simp_all add: checkpoint_inserts_def)

subsection \<open>Persisting the same records twice\<close>

lemma persist_twice:
  assumes run: "\<And>v. persist v = execute_all E ss v"
    and first: "fst (persist w) = Inr ()"
  shows "fst (persist (snd (persist w))) = Inr ()"
    and "crypto_data (snd (persist (snd (persist w)))) = crypto_data (snd (persist w))"
    and "crypto_data (snd (persist w)) =
           foldl insert_on_conflict_do_nothing (crypto_data w) (crypto_inserts ss)"
    and "raw_rows (snd (persist w)) t = raw_rows w t @ raw_inserts t ss"
    and "raw_rows (snd (persist (snd (persist w)))) t =
           raw_rows w t @ raw_inserts t ss @ raw_inserts t ss"
proof -
  have acc: "\<forall>s \<in> set ss. accepted E s"
    using first by (simp add: run execute_all_succeeds_iff)
  have once: "persist v = (Inr (), foldl commit v ss)" for v
    by (simp add: run execute_all_accepted[OF acc])
  show "fst (persist (snd (persist w))) = Inr ()"
    by (simp add: once)
  show "crypto_data (snd (persist (snd (persist w)))) = crypto_data (snd (persist w))"
    by (simp add: once crypto_data_foldl_commit foldl_insert_twice)
  show "crypto_data (snd (persist w)) =
           foldl insert_on_conflict_do_nothing (crypto_data w) (crypto_inserts ss)"
    by (simp add: once crypto_data_foldl_commit)
  show "raw_rows (snd (persist w)) t = raw_rows w t @ raw_inserts t ss"
    by (simp add: once raw_rows_foldl_commit)
  show "raw_rows (snd (persist (snd (persist w)))) t =
           raw_rows w t @ raw_inserts t ss @ raw_inserts t ss"
    by (simp add: once raw_rows_foldl_commit)
qed

lemma stored_once:
  assumes "distinct (map conflict_key rows)" and "r \<in> set rs"
  shows "length (filter (\<lambda>row. conflict_key row = conflict_key r)
           (foldl insert_on_conflict_do_nothing rows rs)) = 1"
proof (rule one_row_per_key)
  show "distinct (map conflict_key (foldl insert_on_conflict_do_nothing rows rs))"
    using assms(1) by (rule distinct_keys_foldl_insert)
  show "conflict_key r \<in> conflict_key ` set (foldl insert_on_conflict_do_nothing rows rs)"
    using assms(2) by (simp add: keys_foldl_insert)
qed

lemma persist_script:
  assumes "persist = save_normalized_data E \<or> persist = csv_load E
      \<or> (0 < CHECKPOINT_INTERVAL (cfg E) \<and> (persist = coingecko_load E \<or> persist = coinpaprika_load E))"
  shows "\<exists>ss. (\<forall>rs v. persist rs v = execute_all E (ss rs) v) \<and> (\<forall>rs. crypto_inserts (ss rs) = rs)"
proof -
  consider (save) "persist = save_normalized_data E" | (csv) "persist = csv_load E"
    | (gecko) "0 < CHECKPOINT_INTERVAL (cfg E)" "persist = coingecko_load E"
    | (paprika) "0 < CHECKPOINT_INTERVAL (cfg E)" "persist = coinpaprika_load E"
    using assms by blast
  then show ?thesis
  proof cases
    case save
    have "\<forall>rs v. persist rs v = execute_all E (map InsertCryptoData rs) v"
      by (simp add: save save_normalized_data_script)
    then show ?thesis
      by (intro exI[of _ "map InsertCryptoData"]) simp
  next
    case csv
    have "\<forall>rs v. persist rs v =
        execute_all E (map (raw_statement Raw_csv) rs @ map InsertCryptoData rs) v"
      by (simp add: csv csv_load_script)
    then show ?thesis
      by (intro exI[of _ "\<lambda>rs. map (raw_statement Raw_csv) rs @ map InsertCryptoData rs"]) simp
  next
    case gecko
    define ss where "ss = load_statements (CHECKPOINT_ENABLED (cfg E)) Raw_coingecko ''coingecko''
        (nat (CHECKPOINT_INTERVAL (cfg E)))"
    have "\<forall>rs v. persist rs v = execute_all E (ss rs) v"
      unfolding gecko(2) coingecko_load_def ss_def
      using gecko(1) by (simp add: load_with_checkpoints_script table_map_def)
    moreover have "\<forall>rs. crypto_inserts (ss rs) = rs"
      using gecko(1) by (simp add: ss_def crypto_inserts_load)
    ultimately show ?thesis by blast
  next
    case paprika
    define ss where "ss = load_statements (CHECKPOINT_ENABLED (cfg E)) Raw_coinpaprika ''coinpaprika''
        (nat (CHECKPOINT_INTERVAL (cfg E)))"
    have "\<forall>rs v. persist rs v = execute_all E (ss rs) v"
      unfolding paprika(2) coinpaprika_load_def ss_def
      using paprika(1) by (simp add: load_with_checkpoints_script table_map_def)
    moreover have "\<forall>rs. crypto_inserts (ss rs) = rs"
      using paprika(1) by (simp add: ss_def crypto_inserts_load)
    ultimately show ?thesis by blast
  qed
qed

text \<open>
  Claim C1. Persisting a batch of normalized records a second time, by
  \<open>save_normalized_data\<close> itself or through the \<open>load\<close> of a pipeline (for the two
  checkpointing pipelines with a positive \<open>CHECKPOINT_INTERVAL\<close>, so that batches are
  written), raises no error where the first call raised none, leaves \<open>crypto_data\<close> as the
  first call left it, and, in a table that satisfied its \<open>UNIQUE\<close> constraint before,
  leaves exactly one row for the key \<open>(source, symbol, last_updated)\<close> of every record.
\<close>

theorem persisting_twice_stores_each_key_once:
  assumes "persist = save_normalized_data E \<or> persist = csv_load E
      \<or> (0 < CHECKPOINT_INTERVAL (cfg E) \<and> (persist = coingecko_load E \<or> persist = coinpaprika_load E))"
    and "fst (persist records w) = Inr ()"
    and "distinct (map conflict_key (crypto_data w))"
  shows "fst (persist records (snd (persist records w))) = Inr ()
    \<and> crypto_data (snd (persist records (snd (persist records w)))) =
        crypto_data (snd (persist records w))
    \<and> (\<forall>r \<in> set records.
          length (filter (\<lambda>row. conflict_key row = conflict_key r)
            (crypto_data (snd (persist records (snd (persist records w)))))) = 1)"
proof -
  obtain ss where run: "\<And>v. persist records v = execute_all E (ss records) v"
    and ins: "crypto_inserts (ss records) = records"
    using persist_script[OF assms(1)] by blast
  note twice = persist_twice[of "persist records", OF run assms(2)]
  have stored: "crypto_data (snd (persist records (snd (persist records w)))) =
      foldl insert_on_conflict_do_nothing (crypto_data w) records"
    using twice(2) twice(3) ins by simp
  have one: "\<forall>r \<in> set records.
      length (filter (\<lambda>row. conflict_key row = conflict_key r)
        (crypto_data (snd (persist records (snd (persist records w)))))) = 1"
    unfolding stored using stored_once[OF assms(3)] by blast
  show ?thesis
    using twice(1) twice(2) one by blast
qed

lemmas load_eval = coingecko_load_def load_with_checkpoints_def save_raw_data_def table_map_def
  range_from_zero_def example_env_def default_settings_def execute_def example_pg_def
  source_id_at_def save_checkpoint_def mark_checkpoint_completed_def empty_world_def
  btc_record_def eth_record_def insert_on_conflict_do_nothing_def conflict_key_def
  mark_completed_def csv_load_def Let_def

theorem persisting_twice_witness:
  "0 < CHECKPOINT_INTERVAL (cfg example_env)
   \<and> fst (coingecko_load example_env [btc_record, eth_record, btc_record] empty_world) = Inr ()
   \<and> distinct (map conflict_key (crypto_data empty_world))
   \<and> fst (coingecko_load example_env [btc_record, eth_record, btc_record]
        (snd (coingecko_load example_env [btc_record, eth_record, btc_record] empty_world))) = Inr ()
   \<and> crypto_data (snd (coingecko_load example_env [btc_record, eth_record, btc_record]
        (snd (coingecko_load example_env [btc_record, eth_record, btc_record] empty_world))))
      = [btc_record, eth_record]
   \<and> length (filter (\<lambda>row. conflict_key row = conflict_key btc_record)
        (crypto_data (snd (coingecko_load example_env [btc_record, eth_record, btc_record]
          (snd (coingecko_load example_env [btc_record, eth_record, btc_record] empty_world)))))) = 1"
proof -
  have pos: "0 < CHECKPOINT_INTERVAL (cfg example_env)"
    by (simp add: example_env_def default_settings_def)
  have which: "coingecko_load example_env = save_normalized_data example_env
      \<or> coingecko_load example_env = csv_load example_env
      \<or> (0 < CHECKPOINT_INTERVAL (cfg example_env)
          \<and> (coingecko_load example_env = coingecko_load example_env
              \<or> coingecko_load example_env = coinpaprika_load example_env))"
    using pos by simp
  have first: "fst (coingecko_load example_env [btc_record, eth_record, btc_record] empty_world) = Inr ()"
    by (simp add: load_eval)
  have unique: "distinct (map conflict_key (crypto_data empty_world))"
    by (simp add: empty_world_def)
  have stored: "crypto_data (snd (coingecko_load example_env [btc_record, eth_record, btc_record]
        (snd (coingecko_load example_env [btc_record, eth_record, btc_record] empty_world))))
      = [btc_record, eth_record]"
    by (simp add: load_eval)
  note twice = persisting_twice_stores_each_key_once [OF which first unique]
  have second: "fst (coingecko_load example_env [btc_record, eth_record, btc_record]
        (snd (coingecko_load example_env [btc_record, eth_record, btc_record] empty_world))) = Inr ()"
    using twice by (rule conjunct1)
  have "btc_record \<in> set [btc_record, eth_record, btc_record]"
    by simp
  with twice have one: "length (filter (\<lambda>row. conflict_key row = conflict_key btc_record)
        (crypto_data (snd (coingecko_load example_env [btc_record, eth_record, btc_record]
          (snd (coingecko_load example_env [btc_record, eth_record, btc_record] empty_world)))))) = 1"
    by blast
  show ?thesis
    using pos first unique second stored one by (intro conjI)
qed

subsection \<open>Raw rows\<close>

lemma raw_inserts_none: "\<forall>s \<in> set ss. \<not> is_raw_insert s \<Longrightarrow> raw_inserts t ss = []"
proof (induction ss)
  case Nil
  show ?case by (simp add: raw_inserts_def)
next
  case (Cons s ss)
  then have "raw_inserts t ss = []" by simp
  moreover have "raw_inserts t [s] = []"
    using Cons.prems by (cases s) (simp_all add: raw_inserts_def is_raw_insert_def)
  ultimately show ?case using raw_inserts_Cons[of t s ss] by simp
qed

lemma takeWhile_accepted_prefix:
  "\<forall>s \<in> set xs. P s \<Longrightarrow> takeWhile P (xs @ ys) = xs @ takeWhile P ys"
  by (induction xs) simp_all

lemma no_raw_in_batch: "s \<in> set (batch_statements en src bs nd j) \<Longrightarrow> \<not> is_raw_insert s"
  by (cases en) (auto simp: batch_statements_def is_raw_insert_def)

lemma no_raw_in_batches:
  "s \<in> set (concat (map (batch_statements en src bs nd) js)) \<Longrightarrow> \<not> is_raw_insert s"
  using no_raw_in_batch by (induction js) auto

lemma no_raw_in_tail:
  "s \<in> set (if en then [UpdateCheckpointsCompleted src] else []) \<Longrightarrow> \<not> is_raw_insert s"
  by (cases en) (simp_all add: is_raw_insert_def)


lemma raw_rows_after_load_with_checkpoints:
  assumes tm: "table_map src = Some t"
    and raw_ok: "fst (save_raw_data E src (map raw_data nd) (Some (map symbol nd)) w) = Inr ()"
  shows "raw_rows (snd (load_with_checkpoints E src nd w)) t' =
     raw_rows w t' @ (if t' = t then map raw_row_of nd else [])"
proof -
  have acc: "\<forall>s \<in> set (map (raw_statement t) nd). accepted E s"
    using raw_ok by (simp only: save_raw_data_script[OF tm] execute_all_succeeds_iff)
  have rows: "raw_inserts t' (map (raw_statement t) nd) = (if t' = t then map raw_row_of nd else [])"
    by (simp add: raw_inserts_raw raw_row_of_def)
  show ?thesis
  proof (cases "CHECKPOINT_INTERVAL (cfg E) = 0")
    case True
    have "snd (load_with_checkpoints E src nd w) = foldl commit w (map (raw_statement t) nd)"
      unfolding load_with_checkpoints_zero_interval[OF tm True] execute_all_accepted[OF acc]
      by (simp only: and_then_Inr snd_conv)
    then show ?thesis
      by (simp only: raw_rows_foldl_commit rows)
  next
    case False
    define rest where "rest = concat (map (batch_statements (CHECKPOINT_ENABLED (cfg E)) src
        (nat (CHECKPOINT_INTERVAL (cfg E))) nd)
        [0..<batch_count (length nd) (nat (CHECKPOINT_INTERVAL (cfg E)))])
      @ (if CHECKPOINT_ENABLED (cfg E) then [UpdateCheckpointsCompleted src] else [])"
    have script: "load_statements (CHECKPOINT_ENABLED (cfg E)) t src (nat (CHECKPOINT_INTERVAL (cfg E))) nd
        = map (raw_statement t) nd @ rest"
      unfolding load_statements_def rest_def ..
    have "\<not> is_raw_insert s" if "s \<in> set rest" for s
      using that no_raw_in_batches no_raw_in_tail unfolding rest_def set_append by blast
    then have "\<forall>s \<in> set (takeWhile (accepted E) rest). \<not> is_raw_insert s"
      using set_takeWhileD by fast
    then have none: "raw_inserts t' (takeWhile (accepted E) rest) = []"
      by (rule raw_inserts_none)
    have "snd (load_with_checkpoints E src nd w) =
        foldl commit w (map (raw_statement t) nd @ takeWhile (accepted E) rest)"
      unfolding load_with_checkpoints_script[OF tm False] script execute_all_world
        takeWhile_accepted_prefix[OF acc] ..
    then show ?thesis
      by (simp only: raw_rows_foldl_commit raw_inserts_append rows none append_Nil2)
  qed
qed


lemma raw_rows_after_csv_load:
  assumes raw_ok: "fst (save_raw_data E ''csv'' (map raw_data nd) (Some (map symbol nd)) w) = Inr ()"
  shows "raw_rows (snd (csv_load E nd w)) t' =
     raw_rows w t' @ (if t' = Raw_csv then map raw_row_of nd else [])"
proof -
  have tm: "table_map ''csv'' = Some Raw_csv" by (simp add: table_map_def)
  have acc: "\<forall>s \<in> set (map (raw_statement Raw_csv) nd). accepted E s"
    using raw_ok by (simp only: save_raw_data_script[OF tm] execute_all_succeeds_iff)
  have rows: "raw_inserts t' (map (raw_statement Raw_csv) nd) =
      (if t' = Raw_csv then map raw_row_of nd else [])"
    by (simp add: raw_inserts_raw raw_row_of_def)
  have "\<not> is_raw_insert s" if "s \<in> set (map InsertCryptoData nd)" for s
    using that by (auto simp: is_raw_insert_def)
  then have "\<forall>s \<in> set (takeWhile (accepted E) (map InsertCryptoData nd)). \<not> is_raw_insert s"
    using set_takeWhileD by fast
  then have none: "raw_inserts t' (takeWhile (accepted E) (map InsertCryptoData nd)) = []"
    by (rule raw_inserts_none)
  have "snd (csv_load E nd w) =
      foldl commit w (map (raw_statement Raw_csv) nd @ takeWhile (accepted E) (map InsertCryptoData nd))"
    unfolding csv_load_script execute_all_world takeWhile_accepted_prefix[OF acc] ..
  then show ?thesis
    by (simp only: raw_rows_foldl_commit raw_inserts_append rows none append_Nil2)
qed

lemma load_with_checkpoints_succeeded:
  assumes tm: "table_map src = Some t" and ok: "fst (load_with_checkpoints E src nd w) = Inr ()"
  shows "CHECKPOINT_INTERVAL (cfg E) \<noteq> 0"
proof
  assume z: "CHECKPOINT_INTERVAL (cfg E) = 0"
  have "isl (fst (load_with_checkpoints E src nd w))"
    unfolding load_with_checkpoints_zero_interval[OF tm z]
    by (cases "execute_all E (map (raw_statement t) nd) w" rule: prod.exhaust)
       (auto simp: and_then_def split: sum.splits)
  then show False using ok by simp
qed

lemma load_with_checkpoints_twice:
  assumes tm: "table_map src = Some t" and ok: "fst (load_with_checkpoints E src nd w) = Inr ()"
  shows "fst (load_with_checkpoints E src nd (snd (load_with_checkpoints E src nd w))) = Inr ()"
    and "crypto_data (snd (load_with_checkpoints E src nd (snd (load_with_checkpoints E src nd w)))) =
           crypto_data (snd (load_with_checkpoints E src nd w))"
    and "raw_rows (snd (load_with_checkpoints E src nd (snd (load_with_checkpoints E src nd w)))) t =
           raw_rows w t @ map raw_row_of nd @ map raw_row_of nd"
proof -
  note nz = load_with_checkpoints_succeeded[OF tm ok]
  note twice = persist_twice[of "load_with_checkpoints E src nd", OF load_with_checkpoints_script[OF tm nz] ok]
  show "fst (load_with_checkpoints E src nd (snd (load_with_checkpoints E src nd w))) = Inr ()"
    by (rule twice(1))
  show "crypto_data (snd (load_with_checkpoints E src nd (snd (load_with_checkpoints E src nd w)))) =
           crypto_data (snd (load_with_checkpoints E src nd w))"
    by (rule twice(2))
  show "raw_rows (snd (load_with_checkpoints E src nd (snd (load_with_checkpoints E src nd w)))) t =
           raw_rows w t @ map raw_row_of nd @ map raw_row_of nd"
    unfolding twice(5) by (simp add: raw_inserts_load raw_row_of_def)
qed

lemma csv_load_twice:
  assumes ok: "fst (csv_load E nd w) = Inr ()"
  shows "fst (csv_load E nd (snd (csv_load E nd w))) = Inr ()"
    and "crypto_data (snd (csv_load E nd (snd (csv_load E nd w)))) = crypto_data (snd (csv_load E nd w))"
    and "raw_rows (snd (csv_load E nd (snd (csv_load E nd w)))) Raw_csv =
           raw_rows w Raw_csv @ map raw_row_of nd @ map raw_row_of nd"
proof -
  note twice = persist_twice[of "csv_load E nd", OF csv_load_script ok]
  show "fst (csv_load E nd (snd (csv_load E nd w))) = Inr ()"
    by (rule twice(1))
  show "crypto_data (snd (csv_load E nd (snd (csv_load E nd w)))) = crypto_data (snd (csv_load E nd w))"
    by (rule twice(2))
  show "raw_rows (snd (csv_load E nd (snd (csv_load E nd w)))) Raw_csv =
           raw_rows w Raw_csv @ map raw_row_of nd @ map raw_row_of nd"
    unfolding twice(5) by (simp add: raw_inserts_raw raw_row_of_def)
qed

text \<open>
  Claim C10. Whatever the raw table of the source already holds, a \<open>load\<close> whose raw
  inserts the server accepts appends one raw row per normalized record, in order, also
  when a later step of the same \<open>load\<close> raises. Running a \<open>load\<close> that succeeded again
  with the same records succeeds again, appends the same raw rows a second time and
  leaves \<open>crypto_data\<close> unchanged.
\<close>

theorem load_appends_raw_rows_every_time:
  assumes "(load = coingecko_load E \<and> src = ''coingecko'' \<and> t = Raw_coingecko)
      \<or> (load = coinpaprika_load E \<and> src = ''coinpaprika'' \<and> t = Raw_coinpaprika)
      \<or> (load = csv_load E \<and> src = ''csv'' \<and> t = Raw_csv)"
    and "fst (save_raw_data E src (map raw_data nd) (Some (map symbol nd)) w) = Inr ()"
  shows "raw_rows (snd (load nd w)) t = raw_rows w t @ map raw_row_of nd
    \<and> length (raw_rows (snd (load nd w)) t) = length (raw_rows w t) + length nd
    \<and> (fst (load nd w) = Inr () \<longrightarrow>
          fst (load nd (snd (load nd w))) = Inr ()
        \<and> raw_rows (snd (load nd (snd (load nd w)))) t =
            raw_rows w t @ map raw_row_of nd @ map raw_row_of nd
        \<and> crypto_data (snd (load nd (snd (load nd w)))) = crypto_data (snd (load nd w))
        \<and> length (crypto_data (snd (load nd (snd (load nd w))))) =
            length (crypto_data (snd (load nd w))))"
proof -
  consider (gecko) "load = load_with_checkpoints E src" "table_map src = Some t"
    | (csv) "load = csv_load E" "src = ''csv''" "t = Raw_csv"
    using assms(1) by (auto simp: coingecko_load_def coinpaprika_load_def table_map_def)
  then show ?thesis
  proof cases
    case gecko
    have rows: "raw_rows (snd (load nd w)) t = raw_rows w t @ map raw_row_of nd"
      unfolding gecko(1) using raw_rows_after_load_with_checkpoints[OF gecko(2) assms(2), of t]
      by simp
    show ?thesis
      using rows load_with_checkpoints_twice[OF gecko(2), of E nd w]
      unfolding gecko(1) by simp
  next
    case csv
    have rows: "raw_rows (snd (load nd w)) t = raw_rows w t @ map raw_row_of nd"
      unfolding csv(1) csv(3) using raw_rows_after_csv_load[of E nd w Raw_csv] assms(2)
      by (simp add: csv(2))
    show ?thesis
      using rows csv_load_twice[of E nd w]
      unfolding csv(1) csv(3) by simp
  qed
qed

theorem load_appends_raw_rows_witness:
  "fst (save_raw_data example_env ''coingecko'' (map raw_data [btc_record, eth_record])
         (Some (map symbol [btc_record, eth_record])) empty_world) = Inr ()
   \<and> fst (coingecko_load example_env [btc_record, eth_record] empty_world) = Inr ()
   \<and> raw_rows (snd (coingecko_load example_env [btc_record, eth_record] empty_world)) Raw_coingecko
       = [raw_row_of btc_record, raw_row_of eth_record]
   \<and> raw_rows (snd (coingecko_load example_env [btc_record, eth_record]
         (snd (coingecko_load example_env [btc_record, eth_record] empty_world)))) Raw_coingecko
       = [raw_row_of btc_record, raw_row_of eth_record, raw_row_of btc_record, raw_row_of eth_record]
   \<and> length (crypto_data (snd (coingecko_load example_env [btc_record, eth_record]
         (snd (coingecko_load example_env [btc_record, eth_record] empty_world))))) = 2"
proof -
  have which: "(coingecko_load example_env = coingecko_load example_env \<and> ''coingecko'' = ''coingecko''
        \<and> Raw_coingecko = Raw_coingecko)
      \<or> (coingecko_load example_env = coinpaprika_load example_env \<and> ''coingecko'' = ''coinpaprika''
        \<and> Raw_coingecko = Raw_coinpaprika)
      \<or> (coingecko_load example_env = csv_load example_env \<and> ''coingecko'' = ''csv''
        \<and> Raw_coingecko = Raw_csv)"
    by simp
  have raw_ok: "fst (save_raw_data example_env ''coingecko'' (map raw_data [btc_record, eth_record])
         (Some (map symbol [btc_record, eth_record])) empty_world) = Inr ()"
    by (simp add: load_eval)
  have first: "fst (coingecko_load example_env [btc_record, eth_record] empty_world) = Inr ()"
    by (simp add: load_eval)
  have stored: "length (crypto_data (snd (coingecko_load example_env [btc_record, eth_record]
      empty_world))) = 2"
    by (simp add: load_eval)
  have empty: "raw_rows empty_world Raw_coingecko = []"
    by (simp add: empty_world_def)
  note rows = load_appends_raw_rows_every_time [OF which raw_ok]
  have once: "raw_rows (snd (coingecko_load example_env [btc_record, eth_record] empty_world)) Raw_coingecko
       = [raw_row_of btc_record, raw_row_of eth_record]"
    using rows empty by simp
  have twice: "raw_rows (snd (coingecko_load example_env [btc_record, eth_record]
         (snd (coingecko_load example_env [btc_record, eth_record] empty_world)))) Raw_coingecko
       = [raw_row_of btc_record, raw_row_of eth_record, raw_row_of btc_record, raw_row_of eth_record]"
    using rows first empty by simp
  have same: "length (crypto_data (snd (coingecko_load example_env [btc_record, eth_record]
         (snd (coingecko_load example_env [btc_record, eth_record] empty_world))))) = 2"
    using rows first stored by simp
  show ?thesis
    using raw_ok first once twice same by (intro conjI)
qed

subsection \<open>Checkpoints\<close>

lemma no_update_in_raw: "s \<in> set (map (raw_statement t) nd) \<Longrightarrow> \<not> is_update s"
  by (auto simp: raw_statement_def is_update_def)

lemma no_update_in_inserts: "s \<in> set (map InsertCryptoData rs) \<Longrightarrow> \<not> is_update s"
  by (auto simp: is_update_def)

lemma no_update_in_batch: "s \<in> set (batch_statements en src bs nd j) \<Longrightarrow> \<not> is_update s"
  by (cases en) (auto simp: batch_statements_def is_update_def)

lemma no_update_in_batches:
  "s \<in> set (concat (map (batch_statements en src bs nd) js)) \<Longrightarrow> \<not> is_update s"
  using no_update_in_batch by (induction js) auto

lemma etl_checkpoints_update:
  "etl_checkpoints (commit w (UpdateCheckpointsCompleted src)) =
     map (mark_completed src) (etl_checkpoints w)"
  by (simp add: commit_def)

lemma completed_mark: "ck_source c = src \<Longrightarrow> completed (mark_completed src c)"
  by (cases "completed c") (simp_all add: mark_completed_def)

lemma source_mark: "ck_source (mark_completed src c) = ck_source c"
  by (simp add: mark_completed_def)

lemma completed_after_mark:
  assumes "c \<in> set (map (mark_completed src) cs)" and "ck_source c = src"
  shows "completed c"
proof -
  obtain c0 where c0: "c = mark_completed src c0" using assms(1) by auto
  then have "ck_source c0 = src" using assms(2) by (simp add: source_mark)
  then show ?thesis unfolding c0 by (rule completed_mark)
qed

lemma takeWhile_stops:
  assumes "\<exists>x \<in> set xs. \<not> P x"
  shows "takeWhile P (xs @ ys) = takeWhile P xs"
proof -
  obtain x where "x \<in> set xs" and "\<not> P x" using assms by blast
  then show ?thesis by (rule takeWhile_append1)
qed

lemma dropWhile_stops:
  assumes "\<exists>x \<in> set xs. \<not> P x"
  shows "dropWhile P (xs @ ys) = dropWhile P xs @ ys"
proof -
  obtain x where "x \<in> set xs" and "\<not> P x" using assms by blast
  then show ?thesis by (rule dropWhile_append1)
qed

lemma dropWhile_refused:
  assumes "\<exists>x \<in> set xs. \<not> P x"
  shows "\<exists>x rest. dropWhile P xs = x # rest \<and> x \<in> set xs \<and> \<not> P x"
  using assms
proof (induction xs)
  case Nil
  then show ?case by simp
next
  case (Cons a xs)
  show ?case
  proof (cases "P a")
    case True
    then have "\<exists>x \<in> set xs. \<not> P x" using Cons.prems by simp
    then obtain x rest where "dropWhile P xs = x # rest" "x \<in> set xs" "\<not> P x"
      using Cons.IH by blast
    then show ?thesis using True by simp
  next
    case False
    then show ?thesis by simp
  qed
qed

lemma takeWhile_map_inserts:
  "takeWhile (accepted E) (map InsertCryptoData rs) =
     map InsertCryptoData (takeWhile (\<lambda>r. accepted E (InsertCryptoData r)) rs)"
proof (induction rs)
  case Nil
  show ?case by simp
next
  case (Cons r rs)
  show ?case
  proof (cases "accepted E (InsertCryptoData r)")
    case True
    then show ?thesis using Cons.IH by (simp only: list.map takeWhile.simps if_True)
  next
    case False
    then show ?thesis by (simp only: list.map takeWhile.simps if_False)
  qed
qed


end
